theory Spec2Isabelle
  imports Main
begin

section \<open>The file organiser \<^verbatim>\<open>files-managment/organizar.py\<close>\<close>

text \<open>
  The script sorts the files of one directory into category sub-directories chosen by
  file extension. This theory embeds its functions and settles the properties stated
  about them. Strings are lists of characters; a character stands for one Python code
  point below 256.
\<close>

subsection \<open>Strings: \<^verbatim>\<open>str.lower\<close>, \<^verbatim>\<open>str.rfind\<close>, \<^verbatim>\<open>str(int)\<close>\<close>

text \<open>
  \<^verbatim>\<open>str.lower\<close> on code points below 256: the letters A to Z and the Latin-1 capitals
  (192 to 222 except the multiplication sign 215) move up by 32, every other character
  stays.
\<close>

definition char_lower :: "char \<Rightarrow> char" where
  "char_lower c =
     (let n = (of_char c :: nat)
      in if (65 \<le> n \<and> n \<le> 90) \<or> (192 \<le> n \<and> n \<le> 222 \<and> n \<noteq> 215)
         then char_of (n + 32) else c)"

definition lower :: "string \<Rightarrow> string" where
  "lower s = map char_lower s"

text \<open>\<^verbatim>\<open>s.rfind(c)\<close>: the index of the last occurrence of \<open>c\<close>, or \<open>-1\<close>.\<close>

fun rfind :: "char \<Rightarrow> string \<Rightarrow> int" where
  "rfind c [] = -1"
| "rfind c (x # xs) =
     (let r = rfind c xs
      in if 0 \<le> r then r + 1 else if x = c then 0 else -1)"

text \<open>\<^verbatim>\<open>str(counter)\<close> for a non-negative integer: its decimal digits.\<close>

definition digit_char :: "nat \<Rightarrow> char" where
  "digit_char d = char_of (48 + d)"

fun str_nat :: "nat \<Rightarrow> string" where
  "str_nat n =
     (if n < 10 then [digit_char n] else str_nat (n div 10) @ [digit_char (n mod 10)])"

declare str_nat.simps [simp del]

subsection \<open>Paths (\<^verbatim>\<open>pathlib.Path\<close>)\<close>

text \<open>
  A path is the list of its components below the root; the empty list is the root.
  \<^verbatim>\<open>Path.name\<close> is the last component (empty for the root), \<^verbatim>\<open>Path.parent\<close> drops it
  (the root is its own parent), and \<^verbatim>\<open>p / s\<close> appends the component \<open>s\<close>.
  \<^verbatim>\<open>Path.suffix\<close> and \<^verbatim>\<open>Path.stem\<close> split the name at its last dot, provided that dot
  is neither the first nor the last character of the name (pathlib up to Python 3.13).
\<close>

type_synonym path = "string list"

definition name :: "path \<Rightarrow> string" where
  "name p = (if p = [] then [] else last p)"

definition parent :: "path \<Rightarrow> path" where
  "parent p = butlast p"

definition joinpath :: "path \<Rightarrow> string \<Rightarrow> path" where
  "joinpath p s = p @ [s]"

definition suffix :: "path \<Rightarrow> string" where
  "suffix p =
     (let nm = name p; i = rfind (CHR ''.'') nm
      in if 0 < i \<and> i < int (length nm) - 1 then drop (nat i) nm else [])"

definition stem :: "path \<Rightarrow> string" where
  "stem p =
     (let nm = name p; i = rfind (CHR ''.'') nm
      in if 0 < i \<and> i < int (length nm) - 1 then take (nat i) nm else nm)"

subsection \<open>The category table and \<^verbatim>\<open>infer_category_from_extension\<close>\<close>

text \<open>
  \<^verbatim>\<open>CATEGORIES\<close> is a dictionary literal; iterating over its items follows the order
  of the literal, so it is an association list here.
\<close>

definition CATEGORIES :: "(string \<times> string list) list" where
  "CATEGORIES =
     [(''Imagenes'',
         [''.png'', ''.jpg'', ''.jpeg'', ''.gif'', ''.bmp'', ''.tiff'', ''.webp'', ''.svg'',
          ''.heic'', ''.avif'']),
      (''Documentos'',
         [''.pdf'', ''.doc'', ''.docx'', ''.txt'', ''.rtf'', ''.md'', ''.xls'', ''.xlsx'',
          ''.ppt'', ''.pptx'', ''.csv'', ''.odt'', ''.ods'', ''.odp'']),
      (''Videos'',
         [''.mp4'', ''.mkv'', ''.mov'', ''.avi'', ''.wmv'', ''.flv'', ''.webm'', ''.m4v'']),
      (''Audio'',
         [''.mp3'', ''.wav'', ''.flac'', ''.aac'', ''.ogg'', ''.m4a'', ''.wma'']),
      (''Comprimidos'',
         [''.zip'', ''.rar'', ''.7z'', ''.tar'', ''.gz'', ''.bz2'', ''.xz'', ''.tar.gz'',
          ''.tar.bz2'', ''.tar.xz'']),
      (''Instaladores'',
         [''.exe'', ''.msi'', ''.pkg'', ''.dmg'']),
      (''Codigo'',
         [''.py'', ''.ipynb'', ''.js'', ''.ts'', ''.tsx'', ''.jsx'', ''.java'', ''.c'', ''.h'',
          ''.cpp'', ''.hpp'', ''.cs'', ''.rb'', ''.go'', ''.php'', ''.sh'', ''.bat'', ''.ps1'',
          ''.html'', ''.css'', ''.scss'', ''.json'', ''.yml'', ''.yaml'', ''.xml'', ''.toml'',
          ''.ini'', ''.cfg''])]"

definition DEFAULT_OTHER_CATEGORY :: string where
  "DEFAULT_OTHER_CATEGORY = ''Otros''"

text \<open>
  The loop of \<^verbatim>\<open>infer_category_from_extension\<close> over the items of a table: the first
  category whose list holds the extension, the default when the items run out.
\<close>

fun infer_loop :: "string \<Rightarrow> (string \<times> string list) list \<Rightarrow> string" where
  "infer_loop lower_extension [] = DEFAULT_OTHER_CATEGORY"
| "infer_loop lower_extension ((category_name, extensions) # items) =
     (if lower_extension \<in> set extensions then category_name
      else infer_loop lower_extension items)"

definition infer_category_from_extension :: "string \<Rightarrow> string" where
  "infer_category_from_extension extension = infer_loop (lower extension) CATEGORIES"

text \<open>\<^verbatim>\<open>is_hidden_file\<close>: the name starts with a dot.\<close>

definition is_hidden_file :: "path \<Rightarrow> bool" where
  "is_hidden_file p = (case name p of [] \<Rightarrow> False | c # _ \<Rightarrow> c = CHR ''.'')"

subsection \<open>The filesystem\<close>

text \<open>
  The filesystem is the list of its entries, each a path with its kind, in the order in
  which a directory listing yields them; a new entry goes to the end of the list. The
  root always exists and is a directory. There are no symbolic links and a single
  device. \<^verbatim>\<open>Path.exists\<close>, \<^verbatim>\<open>Path.is_dir\<close> and \<^verbatim>\<open>Path.iterdir\<close> read this list.
\<close>

datatype node = File | Dir

type_synonym filesystem = "(path \<times> node) list"

definition stat :: "filesystem \<Rightarrow> path \<Rightarrow> node option" where
  "stat fs p = (if p = [] then Some Dir else map_of fs p)"

definition exists_path :: "filesystem \<Rightarrow> path \<Rightarrow> bool" where
  "exists_path fs p = (stat fs p \<noteq> None)"

definition is_dir :: "filesystem \<Rightarrow> path \<Rightarrow> bool" where
  "is_dir fs p = (stat fs p = Some Dir)"

definition iterdir :: "filesystem \<Rightarrow> path \<Rightarrow> path list" where
  "iterdir fs d = filter (\<lambda>p. p \<noteq> [] \<and> parent p = d) (map fst fs)"

text \<open>
  The exceptions the script can raise: the \<^verbatim>\<open>ValueError\<close> of the plan builder, and the
  operating-system errors of \<^verbatim>\<open>mkdir\<close> and \<^verbatim>\<open>shutil.move\<close>.
\<close>

datatype error =
    ValueError
  | FileExistsError
  | FileNotFoundError
  | NotADirectoryError
  | IsADirectoryError
  | OSError
  | ShutilError

text \<open>\<^verbatim>\<open>os.mkdir(p)\<close> creates one directory, whose parent must be a directory.\<close>

definition os_mkdir :: "filesystem \<Rightarrow> path \<Rightarrow> error + filesystem" where
  "os_mkdir fs p =
     (if exists_path fs p then Inl FileExistsError
      else case stat fs (parent p) of
             None \<Rightarrow> Inl FileNotFoundError
           | Some File \<Rightarrow> Inl NotADirectoryError
           | Some Dir \<Rightarrow> Inr (fs @ [(p, Dir)]))"

text \<open>
  \<^verbatim>\<open>Path.mkdir(parents=..., exist_ok=True)\<close> of pathlib: it tries \<^verbatim>\<open>os.mkdir\<close>; on
  \<^verbatim>\<open>FileNotFoundError\<close> with \<^verbatim>\<open>parents\<close> set it creates the parent in the same way and
  tries once more without \<^verbatim>\<open>parents\<close>; any other error is swallowed when the path is a
  directory by then. The result is the filesystem reached and the exception raised, if
  any.
\<close>

definition path_mkdir_single :: "filesystem \<Rightarrow> path \<Rightarrow> filesystem \<times> error option" where
  "path_mkdir_single fs p =
     (case os_mkdir fs p of
        Inr fs' \<Rightarrow> (fs', None)
      | Inl e \<Rightarrow>
          if e = FileNotFoundError then (fs, Some e)
          else if is_dir fs p then (fs, None) else (fs, Some e))"

function path_mkdir :: "filesystem \<Rightarrow> path \<Rightarrow> filesystem \<times> error option" where
  "path_mkdir fs p =
     (case os_mkdir fs p of
        Inr fs' \<Rightarrow> (fs', None)
      | Inl e \<Rightarrow>
          if e = FileNotFoundError then
            (if parent p = p then (fs, Some e)
             else case path_mkdir fs (parent p) of
                    (fs', Some e') \<Rightarrow> (fs', Some e')
                  | (fs', None) \<Rightarrow> path_mkdir_single fs' p)
          else if is_dir fs p then (fs, None) else (fs, Some e))"
  by pat_completeness auto
termination
proof (relation "measure (\<lambda>(fs, p). length p)")
  show "wf (measure (\<lambda>(fs, p). length p))" by simp
next
  fix fs :: filesystem and p :: path and e :: error
  assume "parent p \<noteq> p"
  then have "p \<noteq> []" by (auto simp: parent_def)
  then show "((fs, parent p), (fs, p)) \<in> measure (\<lambda>(fs, p). length p)"
    by (simp add: parent_def)
qed

declare path_mkdir.simps [simp del]

text \<open>\<^verbatim>\<open>ensure_directory\<close>\<close>

definition ensure_directory :: "filesystem \<Rightarrow> path \<Rightarrow> filesystem \<times> error option" where
  "ensure_directory fs p =
     (if \<not> exists_path fs p then path_mkdir fs p else (fs, None))"

text \<open>
  \<^verbatim>\<open>os.rename(src, dst)\<close>: the entry \<open>src\<close> and, when it is a directory, everything
  below it, is re-rooted at \<open>dst\<close>; a file replaces an existing file \<open>dst\<close>.
  \<^verbatim>\<open>shutil.move(src, dst)\<close> moves into \<open>dst\<close> when that is a directory and renames
  otherwise; on one device its copying fallback fails where the rename failed.
\<close>

definition is_under :: "path \<Rightarrow> path \<Rightarrow> bool" where
  "is_under d p = (take (length d) p = d)"

definition os_rename :: "filesystem \<Rightarrow> path \<Rightarrow> path \<Rightarrow> error + filesystem" where
  "os_rename fs src dst =
     (case stat fs src of
        None \<Rightarrow> Inl FileNotFoundError
      | Some k \<Rightarrow>
          (case stat fs (parent dst) of
             None \<Rightarrow> Inl FileNotFoundError
           | Some File \<Rightarrow> Inl NotADirectoryError
           | Some Dir \<Rightarrow>
               if src = dst then Inr fs
               else if k = Dir \<and> is_under src dst then Inl OSError
               else if k = Dir \<and> exists_path fs dst then Inl NotADirectoryError
               else if k = File \<and> is_dir fs dst then Inl IsADirectoryError
               else Inr (filter (\<lambda>e. \<not> is_under src (fst e) \<and> fst e \<noteq> dst) fs
                         @ map (\<lambda>e. (dst @ drop (length src) (fst e), snd e))
                             (filter (\<lambda>e. is_under src (fst e)) fs))))"

definition shutil_move :: "filesystem \<Rightarrow> path \<Rightarrow> path \<Rightarrow> error + filesystem" where
  "shutil_move fs src dst =
     (if is_dir fs dst then
        (if src = dst then os_rename fs src dst
         else let real_dst = joinpath dst (name src)
              in if exists_path fs real_dst then Inl ShutilError
                 else os_rename fs src real_dst)
      else os_rename fs src dst)"

subsection \<open>The plan builder\<close>

record MovePlan =
  source :: path
  destination :: path
  category :: string

text \<open>
  The body of the loop of \<^verbatim>\<open>build_move_plan_for_directory\<close> for a child that is kept:
  the extension handed to the classifier, and the plan item.
\<close>

definition file_extension :: "path \<Rightarrow> string" where
  "file_extension child = lower (suffix child)"

definition plan_item :: "path \<Rightarrow> path \<Rightarrow> MovePlan" where
  "plan_item directory child =
     (let category = infer_category_from_extension (file_extension child);
          destination_dir = joinpath directory category;
          destination = joinpath destination_dir (name child)
      in \<lparr>source = child, destination = destination, category = category\<rparr>)"

fun plan_loop :: "filesystem \<Rightarrow> path \<Rightarrow> bool \<Rightarrow> path list \<Rightarrow> MovePlan list" where
  "plan_loop fs directory include_hidden [] = []"
| "plan_loop fs directory include_hidden (child # children) =
     (if is_dir fs child then plan_loop fs directory include_hidden children
      else if \<not> include_hidden \<and> is_hidden_file child
        then plan_loop fs directory include_hidden children
      else plan_item directory child # plan_loop fs directory include_hidden children)"

definition build_move_plan_for_directory ::
    "filesystem \<Rightarrow> path \<Rightarrow> bool \<Rightarrow> error + MovePlan list" where
  "build_move_plan_for_directory fs directory include_hidden =
     (if \<not> exists_path fs directory \<or> \<not> is_dir fs directory then Inl ValueError
      else Inr (plan_loop fs directory include_hidden (iterdir fs directory)))"

subsection \<open>The destination resolver\<close>

text \<open>
  \<^verbatim>\<open>generate_unique_destination_path\<close> asks only whether a path exists, so it takes
  that test as a function. Its \<^verbatim>\<open>while True\<close> loop has no exit but the \<^verbatim>\<open>return\<close>; a run
  that never returns has the value \<open>None\<close>.
\<close>

definition candidate_path :: "path \<Rightarrow> string \<Rightarrow> string \<Rightarrow> nat \<Rightarrow> path" where
  "candidate_path parent_dir stem_part suffix_part counter =
     joinpath parent_dir (stem_part @ '' ('' @ str_nat counter @ '')'' @ suffix_part)"

partial_function (option) unique_loop ::
    "(path \<Rightarrow> bool) \<Rightarrow> path \<Rightarrow> string \<Rightarrow> string \<Rightarrow> nat \<Rightarrow> path option" where
  "unique_loop ex parent_dir stem_part suffix_part counter =
     (if \<not> ex (candidate_path parent_dir stem_part suffix_part counter)
      then Some (candidate_path parent_dir stem_part suffix_part counter)
      else unique_loop ex parent_dir stem_part suffix_part (counter + 1))"

declare unique_loop.simps [code]

definition generate_unique_destination_path :: "(path \<Rightarrow> bool) \<Rightarrow> path \<Rightarrow> path option" where
  "generate_unique_destination_path ex dest =
     (if \<not> ex dest then Some dest
      else unique_loop ex (parent dest) (stem dest) (suffix dest) 1)"

text \<open>A filesystem that reports every path as existing.\<close>

definition always_exists :: "path \<Rightarrow> bool" where
  "always_exists p = True"

subsection \<open>The executor\<close>

text \<open>
  \<^verbatim>\<open>per_category\<close> is a dictionary from category to count, in insertion order.
  \<^verbatim>\<open>d.get(k, v)\<close> reads with a default, \<^verbatim>\<open>d[k] = v\<close> replaces the value of a present
  key and appends an absent one.
\<close>

type_synonym counts = "(string \<times> nat) list"

definition dict_get :: "counts \<Rightarrow> string \<Rightarrow> nat \<Rightarrow> nat" where
  "dict_get d k v = (case map_of d k of None \<Rightarrow> v | Some w \<Rightarrow> w)"

fun dict_set :: "counts \<Rightarrow> string \<Rightarrow> nat \<Rightarrow> counts" where
  "dict_set [] k v = [(k, v)]"
| "dict_set ((k', w) # d) k v = (if k' = k then (k, v) # d else (k', w) # dict_set d k v)"

text \<open>
  A line printed in dry-run mode is kept as the three names it shows: the source's name,
  the name of the destination's parent, and the name of the resolved destination.
  The outcome of \<^verbatim>\<open>apply_move_plan\<close> is the filesystem it leaves, the lines it printed,
  and either the exception that ended it or the pair it returns; \<open>None\<close> when it never
  returns.
\<close>

type_synonym report = "string \<times> string \<times> string"

type_synonym outcome = "filesystem \<times> report list \<times> (error + nat \<times> counts)"

fun apply_loop ::
    "bool \<Rightarrow> MovePlan list \<Rightarrow> filesystem \<Rightarrow> report list \<Rightarrow> nat \<Rightarrow> counts \<Rightarrow> outcome option"
where
  "apply_loop dry_run [] fs out moved_count per_category =
     Some (fs, out, Inr (moved_count, per_category))"
| "apply_loop dry_run (plan # plans) fs out moved_count per_category =
     (case ensure_directory fs (parent (destination plan)) of
        (fs1, Some e) \<Rightarrow> Some (fs1, out, Inl e)
      | (fs1, None) \<Rightarrow>
          (case generate_unique_destination_path (exists_path fs1) (destination plan) of
             None \<Rightarrow> None
           | Some unique_destination \<Rightarrow>
               if dry_run then
                 apply_loop dry_run plans fs1
                   (out @ [(name (source plan), name (parent (destination plan)),
                            name unique_destination)])
                   moved_count per_category
               else
                 (case shutil_move fs1 (source plan) unique_destination of
                    Inl e \<Rightarrow> Some (fs1, out, Inl e)
                  | Inr fs2 \<Rightarrow>
                      apply_loop dry_run plans fs2 out (moved_count + 1)
                        (dict_set per_category (category plan)
                           (dict_get per_category (category plan) 0 + 1)))))"

definition apply_move_plan :: "filesystem \<Rightarrow> MovePlan list \<Rightarrow> bool \<Rightarrow> outcome option" where
  "apply_move_plan fs plans dry_run = apply_loop dry_run plans fs [] 0 []"

text \<open>
  \<^verbatim>\<open>main\<close> without its argument parsing and its summary lines: the plan is built, then
  applied.
\<close>

definition main :: "filesystem \<Rightarrow> path \<Rightarrow> bool \<Rightarrow> bool \<Rightarrow> outcome option" where
  "main fs target_dir dry_run include_hidden =
     (case build_move_plan_for_directory fs target_dir include_hidden of
        Inl e \<Rightarrow> Some (fs, [], Inl e)
      | Inr plans \<Rightarrow> apply_move_plan fs plans dry_run)"

section \<open>Properties\<close>

subsection \<open>Classification\<close>

lemma char_lower_idem: "char_lower (char_lower c) = char_lower c"
  by (auto simp: char_lower_def Let_def)

lemma lower_idem: "lower (lower s) = lower s"
  by (simp add: lower_def char_lower_idem)

lemma infer_loop_default:
  "\<forall>(c, exts) \<in> set tbl. x \<notin> set exts \<Longrightarrow> infer_loop x tbl = DEFAULT_OTHER_CATEGORY"
  by (induction tbl) auto

text \<open>
  In a table whose extension lists share no entry, the first match is the only match.
\<close>

lemma infer_loop_member:
  "distinct (concat (map snd tbl)) \<Longrightarrow> (c, exts) \<in> set tbl \<Longrightarrow> x \<in> set exts
   \<Longrightarrow> infer_loop x tbl = c"
proof (induction tbl)
  case Nil
  then show ?case by simp
next
  case (Cons item tbl)
  obtain c0 e0 where item: "item = (c0, e0)" by (cases item)
  show ?case
  proof (cases "x \<in> set e0")
    case True
    have "(c, exts) \<notin> set tbl"
    proof
      assume "(c, exts) \<in> set tbl"
      with Cons.prems(3) have "x \<in> set (concat (map snd tbl))" by force
      with True Cons.prems(1) item show False by auto
    qed
    with Cons.prems(2) item True show ?thesis by simp
  next
    case False
    with Cons.prems(2,3) item have "(c, exts) \<in> set tbl" by auto
    moreover from Cons.prems(1) have "distinct (concat (map snd tbl))" by simp
    ultimately have "infer_loop x tbl = c" using Cons.IH Cons.prems(3) by blast
    with False item show ?thesis by simp
  qed
qed

lemma CATEGORIES_distinct: "distinct (concat (map snd CATEGORIES))"
  by code_simp

lemma CATEGORIES_lower: "\<forall>x \<in> set (concat (map snd CATEGORIES)). lower x = x"
  by code_simp

text \<open>
  Claim C6. \<^verbatim>\<open>infer_category_from_extension\<close> lower-cases its argument before the
  lookup: classifying \<open>e\<close> is classifying its lower-case form. When the lower-cased
  \<open>e\<close> is in a category's list, that category is returned; so for an extension \<open>x\<close>
  listed under a category, every \<open>e\<close> that differs from \<open>x\<close> in letter case only
  (both lower-case to the same string) gets that category.
\<close>

theorem infer_category_case_insensitive:
  "infer_category_from_extension e = infer_category_from_extension (lower e)
   \<and> ((category_name, extensions) \<in> set CATEGORIES \<and> lower e \<in> set extensions
        \<longrightarrow> infer_category_from_extension e = category_name)
   \<and> ((category_name, extensions) \<in> set CATEGORIES \<and> x \<in> set extensions
        \<and> lower e = lower x
        \<longrightarrow> infer_category_from_extension e = category_name)"
proof (intro conjI impI)
  show "infer_category_from_extension e = infer_category_from_extension (lower e)"
    by (simp add: infer_category_from_extension_def lower_idem)
next
  assume "(category_name, extensions) \<in> set CATEGORIES \<and> lower e \<in> set extensions"
  then show "infer_category_from_extension e = category_name"
    using infer_loop_member [OF CATEGORIES_distinct, of category_name extensions "lower e"]
    by (simp add: infer_category_from_extension_def)
next
  assume a: "(category_name, extensions) \<in> set CATEGORIES \<and> x \<in> set extensions
             \<and> lower e = lower x"
  then have "x \<in> set (concat (map snd CATEGORIES))" by force
  with CATEGORIES_lower have "lower x = x" by blast
  with a have "lower e \<in> set extensions" by simp
  with a show "infer_category_from_extension e = category_name"
    using infer_loop_member [OF CATEGORIES_distinct, of category_name extensions "lower e"]
    by (simp add: infer_category_from_extension_def)
qed

theorem infer_category_case_insensitive_witness:
  "infer_category_from_extension ''.JPG'' = ''Imagenes''
   \<and> infer_category_from_extension ''.jpg'' = ''Imagenes''
   \<and> infer_category_from_extension ''.JPG'' = infer_category_from_extension (lower ''.JPG'')"
proof -
  let ?exts = "[''.png'', ''.jpg'', ''.jpeg'', ''.gif'', ''.bmp'', ''.tiff'', ''.webp'',
                ''.svg'', ''.heic'', ''.avif'']"
  have m: "(''Imagenes'', ?exts) \<in> set CATEGORIES"
    by (simp add: CATEGORIES_def)
  have x: "''.jpg'' \<in> set ?exts"
    by simp
  have l: "lower ''.JPG'' = lower ''.jpg''"
    by code_simp
  have l': "lower ''.jpg'' \<in> set ?exts"
    by code_simp
  from infer_category_case_insensitive [of "''.JPG''" "''Imagenes''" ?exts "''.jpg''"] m x l
  have 1: "infer_category_from_extension ''.JPG'' = ''Imagenes''"
    and 3: "infer_category_from_extension ''.JPG'' = infer_category_from_extension (lower ''.JPG'')"
    by blast+
  from infer_category_case_insensitive [of "''.jpg''" "''Imagenes''" ?exts "''.jpg''"] m l'
  have 2: "infer_category_from_extension ''.jpg'' = ''Imagenes''"
    by blast
  from 1 2 3 show ?thesis by (intro conjI)
qed

text \<open>
  Claim C7. When the lower-cased extension is in no category's list, which covers the
  empty extension of a file without one, \<^verbatim>\<open>infer_category_from_extension\<close> returns
  the fixed label \<^verbatim>\<open>DEFAULT_OTHER_CATEGORY\<close>.
\<close>

theorem infer_category_fallback:
  assumes "\<forall>(category_name, extensions) \<in> set CATEGORIES. lower e \<notin> set extensions"
  shows "infer_category_from_extension e = DEFAULT_OTHER_CATEGORY"
  using assms by (simp add: infer_category_from_extension_def infer_loop_default)

theorem infer_category_fallback_witness:
  "infer_category_from_extension [] = ''Otros''
   \<and> infer_category_from_extension ''.XYZ'' = ''Otros''"
proof -
  have h1: "\<forall>(category_name, extensions) \<in> set CATEGORIES. lower [] \<notin> set extensions"
    by (simp add: CATEGORIES_def lower_def)
  have h2: "\<forall>(category_name, extensions) \<in> set CATEGORIES.
              lower ''.XYZ'' \<notin> set extensions"
    by code_simp
  show ?thesis
    using infer_category_fallback [OF h1] infer_category_fallback [OF h2]
    by (simp add: DEFAULT_OTHER_CATEGORY_def)
qed

subsection \<open>Strings and the resolver's loop\<close>

lemma rfind_notin: "c \<notin> set ys \<Longrightarrow> rfind c ys = -1"
  by (induction ys) (auto simp: Let_def)

lemma rfind_append: "c \<notin> set ys \<Longrightarrow> rfind c (xs @ c # ys) = int (length xs)"
  by (induction xs) (auto simp: Let_def rfind_notin)

lemma digit_char_inj: "a < 10 \<Longrightarrow> b < 10 \<Longrightarrow> digit_char a = digit_char b \<Longrightarrow> a = b"
proof -
  assume a: "a < 10" and b: "b < 10" and e: "digit_char a = digit_char b"
  from e have "(of_char (char_of (48 + a)) :: nat) = of_char (char_of (48 + b))"
    by (simp add: digit_char_def)
  with a b show "a = b" by simp
qed

lemma str_nat_length: "n \<ge> 10 \<Longrightarrow> length (str_nat n) \<ge> 2"
proof -
  assume n: "n \<ge> 10"
  have ne: "str_nat (n div 10) \<noteq> []"
    by (subst str_nat.simps) simp
  then have "length (str_nat (n div 10)) \<ge> 1" by (cases "str_nat (n div 10)") auto
  with n show ?thesis by (subst str_nat.simps) simp
qed

lemma str_nat_inj: "str_nat m = str_nat n \<Longrightarrow> m = n"
proof (induction m arbitrary: n rule: less_induct)
  case (less m)
  show ?case
  proof (cases "m < 10")
    case True
    then have sm: "str_nat m = [digit_char m]" by (subst str_nat.simps) simp
    show ?thesis
    proof (cases "n < 10")
      case n: True
      then have "str_nat n = [digit_char n]" by (subst str_nat.simps) simp
      with sm less.prems True n show ?thesis by (auto dest: digit_char_inj)
    next
      case False
      then have "length (str_nat n) \<ge> 2" by (simp add: str_nat_length)
      with sm less.prems show ?thesis by simp
    qed
  next
    case False
    then have sm: "str_nat m = str_nat (m div 10) @ [digit_char (m mod 10)]"
      by (subst str_nat.simps) simp
    show ?thesis
    proof (cases "n < 10")
      case True
      then have "str_nat n = [digit_char n]" by (subst str_nat.simps) simp
      moreover from False have "length (str_nat m) \<ge> 2" by (simp add: str_nat_length)
      ultimately show ?thesis using less.prems by simp
    next
      case n: False
      then have "str_nat n = str_nat (n div 10) @ [digit_char (n mod 10)]"
        by (subst str_nat.simps) simp
      with sm less.prems have e1: "str_nat (m div 10) = str_nat (n div 10)"
        and e2: "digit_char (m mod 10) = digit_char (n mod 10)" by auto
      from False have "m div 10 < m" by simp
      with e1 have "m div 10 = n div 10" using less.IH by blast
      moreover have "m mod 10 = n mod 10"
        by (rule digit_char_inj [OF _ _ e2]) simp_all
      ultimately show ?thesis by (metis div_mult_mod_eq)
    qed
  qed
qed

lemma candidate_path_inj:
  "candidate_path pd st sf j = candidate_path pd st sf k \<Longrightarrow> j = k"
  by (auto simp: candidate_path_def joinpath_def dest: str_nat_inj)

lemma unique_loop_first:
  "\<not> ex (candidate_path pd st sf k) \<Longrightarrow> c \<le> k
   \<Longrightarrow> \<forall>j. c \<le> j \<and> j < k \<longrightarrow> ex (candidate_path pd st sf j)
   \<Longrightarrow> unique_loop ex pd st sf c = Some (candidate_path pd st sf k)"
proof (induction "k - c" arbitrary: c)
  case 0
  then have "c = k" by simp
  with "0.prems"(1) show ?case by (subst unique_loop.simps) simp
next
  case (Suc d)
  then have lt: "c < k" by simp
  with Suc.prems(3) have ex: "ex (candidate_path pd st sf c)" by simp
  from Suc.hyps(2) have d: "d = k - (c + 1)" by simp
  have "unique_loop ex pd st sf (c + 1) = Some (candidate_path pd st sf k)"
    using Suc.hyps(1) [OF d Suc.prems(1)] lt Suc.prems(3) by simp
  with ex show ?case by (subst unique_loop.simps) simp
qed

lemma unique_loop_Some:
  assumes "unique_loop ex pd st sf c = Some q"
  shows "\<exists>k\<ge>c. q = candidate_path pd st sf k \<and> \<not> ex q
          \<and> (\<forall>j. c \<le> j \<and> j < k \<longrightarrow> ex (candidate_path pd st sf j))"
proof (induction ex pd st sf c q rule: unique_loop.raw_induct)
  case (1 loop ex pd st sf c q)
  note IH = "1"(1) and eq = "1"(2)
  show ?case
  proof (cases "ex (candidate_path pd st sf c)")
    case False
    with eq have q: "q = candidate_path pd st sf c" by simp
    have "\<forall>j. c \<le> j \<and> j < c \<longrightarrow> ex (candidate_path pd st sf j)"
      by (intro allI impI) linarith
    with q False have "c \<le> c \<and> q = candidate_path pd st sf c \<and> \<not> ex q
        \<and> (\<forall>j. c \<le> j \<and> j < c \<longrightarrow> ex (candidate_path pd st sf j))" by simp
    then show ?thesis by (rule exI [where x = c])
  next
    case True
    with eq have l: "loop ex pd st sf (c + 1) = Some q" by simp
    from IH [OF l] obtain k where k: "c + 1 \<le> k" "q = candidate_path pd st sf k"
      "\<not> ex q" "\<forall>j. c + 1 \<le> j \<and> j < k \<longrightarrow> ex (candidate_path pd st sf j)"
      by (elim exE conjE)
    have "ex (candidate_path pd st sf j)" if j: "c \<le> j \<and> j < k" for j
    proof (cases "j = c")
      case True
      with \<open>ex (candidate_path pd st sf c)\<close> show ?thesis by simp
    next
      case False
      with j have "c + 1 \<le> j \<and> j < k" by linarith
      with k(4) show ?thesis by (elim allE [where x = j]) simp
    qed
    then have "\<forall>j. c \<le> j \<and> j < k \<longrightarrow> ex (candidate_path pd st sf j)"
      by (intro allI impI)
    moreover from k(1) have "c \<le> k" by linarith
    ultimately have "c \<le> k \<and> q = candidate_path pd st sf k \<and> \<not> ex q
        \<and> (\<forall>j. c \<le> j \<and> j < k \<longrightarrow> ex (candidate_path pd st sf j))"
      using k(2,3) by simp
    then show ?thesis by (rule exI [where x = k])
  qed
qed (rule assms)

lemma existing_paths_finite: "finite {p. exists_path fs p}"
proof -
  have "{p. exists_path fs p} \<subseteq> insert [] (fst ` set fs)"
    by (auto simp: exists_path_def stat_def dom_map_of_conv_image_fst [symmetric]
          split: if_splits)
  then show ?thesis by (rule finite_subset) simp
qed


lemma free_candidate_exists:
  "\<exists>k\<ge>c. \<not> exists_path fs (candidate_path pd st sf k)"
proof (rule ccontr)
  assume "\<not> ?thesis"
  then have "candidate_path pd st sf ` {c..} \<subseteq> {p. exists_path fs p}" by auto
  then have "finite (candidate_path pd st sf ` {c..})"
    by (rule finite_subset) (rule existing_paths_finite)
  moreover have "inj_on (candidate_path pd st sf) {c..}"
    by (auto simp: inj_on_def dest: candidate_path_inj)
  ultimately have "finite {c..}" by (rule finite_imageD)
  then show False by (simp add: infinite_Ici)
qed

lemma unique_loop_total:
  "\<exists>q. unique_loop (exists_path fs) pd st sf c = Some q"
proof -
  let ?P = "\<lambda>k. c \<le> k \<and> \<not> exists_path fs (candidate_path pd st sf k)"
  from free_candidate_exists [of c fs pd st sf] have "\<exists>k. ?P k" by blast
  then have l: "?P (LEAST k. ?P k)" by (rule LeastI_ex)
  have "\<forall>j. c \<le> j \<and> j < (LEAST k. ?P k) \<longrightarrow> exists_path fs (candidate_path pd st sf j)"
    using not_less_Least [of _ ?P] by blast
  with l show ?thesis using unique_loop_first [of "exists_path fs" pd st sf "LEAST k. ?P k" c]
    by blast
qed

lemma unique_loop_diverges:
  "\<forall>p. ex p \<Longrightarrow> unique_loop ex pd st sf c = None"
proof (rule ccontr)
  assume a: "\<forall>p. ex p" and "unique_loop ex pd st sf c \<noteq> None"
  then obtain q where "unique_loop ex pd st sf c = Some q" by auto
  from unique_loop_Some [OF this] a show False by blast
qed

lemma parent_candidate_path [simp]: "parent (candidate_path pd st sf k) = pd"
  by (simp add: parent_def candidate_path_def joinpath_def)

lemma name_candidate_path [simp]:
  "name (candidate_path pd st sf k) = st @ '' ('' @ str_nat k @ '')'' @ sf"
  by (simp add: name_def candidate_path_def joinpath_def)

lemma generate_unique_free:
  "\<not> ex dest \<Longrightarrow> generate_unique_destination_path ex dest = Some dest"
  by (simp add: generate_unique_destination_path_def)

lemma generate_unique_first:
  assumes "ex dest" and "1 \<le> k"
    and "\<not> ex (candidate_path (parent dest) (stem dest) (suffix dest) k)"
    and "\<forall>j. 1 \<le> j \<and> j < k \<longrightarrow> ex (candidate_path (parent dest) (stem dest) (suffix dest) j)"
  shows "generate_unique_destination_path ex dest
         = Some (candidate_path (parent dest) (stem dest) (suffix dest) k)"
  using assms(1) unique_loop_first [OF assms(3) assms(2) assms(4)]
  by (simp add: generate_unique_destination_path_def)

text \<open>
  Claim C3. On a filesystem, \<^verbatim>\<open>generate_unique_destination_path\<close> returns, and the path
  it returns does not exist. It is the proposed path itself when that does not exist;
  otherwise it is the candidate \<^verbatim>\<open>stem (k).ext\<close> in the same parent directory for the
  least counter \<open>k \<ge> 1\<close> whose candidate does not exist: every candidate with a smaller
  counter exists.
\<close>

theorem unique_destination_resolved:
  "\<exists>q. generate_unique_destination_path (exists_path fs) dest = Some q
       \<and> \<not> exists_path fs q
       \<and> (if \<not> exists_path fs dest then q = dest
          else \<exists>k\<ge>1. q = candidate_path (parent dest) (stem dest) (suffix dest) k
                 \<and> parent q = parent dest
                 \<and> name q = stem dest @ '' ('' @ str_nat k @ '')'' @ suffix dest
                 \<and> (\<forall>j. 1 \<le> j \<and> j < k \<longrightarrow>
                       exists_path fs
                         (candidate_path (parent dest) (stem dest) (suffix dest) j)))"
proof (cases "exists_path fs dest")
  case False
  then show ?thesis by (simp add: generate_unique_destination_path_def)
next
  case True
  obtain q where q: "unique_loop (exists_path fs) (parent dest) (stem dest) (suffix dest) 1 = Some q"
    using unique_loop_total by blast
  from unique_loop_Some [OF q] obtain k where k: "1 \<le> k"
      "q = candidate_path (parent dest) (stem dest) (suffix dest) k" "\<not> exists_path fs q"
      "\<forall>j. 1 \<le> j \<and> j < k \<longrightarrow>
         exists_path fs (candidate_path (parent dest) (stem dest) (suffix dest) j)"
    by (elim exE conjE)
  have "1 \<le> k \<and> q = candidate_path (parent dest) (stem dest) (suffix dest) k
        \<and> parent q = parent dest
        \<and> name q = stem dest @ '' ('' @ str_nat k @ '')'' @ suffix dest
        \<and> (\<forall>j. 1 \<le> j \<and> j < k \<longrightarrow>
              exists_path fs (candidate_path (parent dest) (stem dest) (suffix dest) j))"
    using k by simp
  then have "\<exists>k\<ge>1. q = candidate_path (parent dest) (stem dest) (suffix dest) k
        \<and> parent q = parent dest
        \<and> name q = stem dest @ '' ('' @ str_nat k @ '')'' @ suffix dest
        \<and> (\<forall>j. 1 \<le> j \<and> j < k \<longrightarrow>
              exists_path fs (candidate_path (parent dest) (stem dest) (suffix dest) j))"
    by (rule exI [where x = k])
  with True q k(3) show ?thesis by (simp add: generate_unique_destination_path_def)
qed

theorem unique_destination_resolved_witness:
  "generate_unique_destination_path
     (exists_path [([''dl''], Dir), ([''dl'', ''Documentos''], Dir),
                   ([''dl'', ''Documentos'', ''report.pdf''], File)])
     [''dl'', ''Documentos'', ''report.pdf''] = Some [''dl'', ''Documentos'', ''report (1).pdf'']
   \<and> \<not> exists_path [([''dl''], Dir), ([''dl'', ''Documentos''], Dir),
                      ([''dl'', ''Documentos'', ''report.pdf''], File)]
         [''dl'', ''Documentos'', ''report (1).pdf'']
   \<and> generate_unique_destination_path
     (exists_path [([''dl''], Dir), ([''dl'', ''Documentos''], Dir),
                   ([''dl'', ''Documentos'', ''report.pdf''], File),
                   ([''dl'', ''Documentos'', ''report (1).pdf''], File)])
     [''dl'', ''Documentos'', ''report.pdf''] = Some [''dl'', ''Documentos'', ''report (2).pdf'']
   \<and> \<not> exists_path [([''dl''], Dir), ([''dl'', ''Documentos''], Dir),
                      ([''dl'', ''Documentos'', ''report.pdf''], File),
                      ([''dl'', ''Documentos'', ''report (1).pdf''], File)]
         [''dl'', ''Documentos'', ''report (2).pdf'']"
proof -
  let ?fs1 = "[([''dl''], Dir), ([''dl'', ''Documentos''], Dir),
               ([''dl'', ''Documentos'', ''report.pdf''], File)]"
  let ?fs2 = "[([''dl''], Dir), ([''dl'', ''Documentos''], Dir),
               ([''dl'', ''Documentos'', ''report.pdf''], File),
               ([''dl'', ''Documentos'', ''report (1).pdf''], File)]"
  let ?d = "[''dl'', ''Documentos'', ''report.pdf'']"
  let ?c = "candidate_path (parent ?d) (stem ?d) (suffix ?d)"
  have c1: "?c 1 = [''dl'', ''Documentos'', ''report (1).pdf'']" by code_simp
  have c2: "?c 2 = [''dl'', ''Documentos'', ''report (2).pdf'']" by code_simp
  have x1: "exists_path ?fs1 ?d" by code_simp
  have y1: "\<not> exists_path ?fs1 (?c 1)" by code_simp
  have x2: "exists_path ?fs2 ?d" by code_simp
  have y2: "\<not> exists_path ?fs2 (?c 2)" by code_simp
  have z2: "exists_path ?fs2 (?c 1)" by code_simp
  have a1: "\<forall>j. (1::nat) \<le> j \<and> j < 1 \<longrightarrow> exists_path ?fs1 (?c j)"
    by (intro allI impI) linarith
  have a2: "\<forall>j. (1::nat) \<le> j \<and> j < 2 \<longrightarrow> exists_path ?fs2 (?c j)"
  proof (intro allI impI)
    fix j :: nat assume "1 \<le> j \<and> j < 2"
    then have "j = 1" by linarith
    with z2 show "exists_path ?fs2 (?c j)" by simp
  qed
  have e1: "generate_unique_destination_path (exists_path ?fs1) ?d
            = Some [''dl'', ''Documentos'', ''report (1).pdf'']"
    using generate_unique_first [of "exists_path ?fs1" ?d 1, OF x1 _ y1 a1] c1 by simp
  have e2: "generate_unique_destination_path (exists_path ?fs2) ?d
            = Some [''dl'', ''Documentos'', ''report (2).pdf'']"
    using generate_unique_first [of "exists_path ?fs2" ?d 2, OF x2 _ y2 a2] c2 by simp
  from unique_destination_resolved [of ?fs1 ?d] e1
  have n1: "\<not> exists_path ?fs1 [''dl'', ''Documentos'', ''report (1).pdf'']"
    by (elim exE conjE) simp
  from unique_destination_resolved [of ?fs2 ?d] e2
  have n2: "\<not> exists_path ?fs2 [''dl'', ''Documentos'', ''report (2).pdf'']"
    by (elim exE conjE) simp
  from e1 n1 e2 n2 show ?thesis by (intro conjI)
qed

lemma unique_loop_returns:
  "\<not> ex (candidate_path pd st sf k) \<Longrightarrow> c \<le> k
   \<Longrightarrow> \<exists>q. unique_loop ex pd st sf c = Some q"
proof (induction "k - c" arbitrary: c)
  case 0
  then have "c = k" by simp
  with "0.prems"(1) show ?case by (subst unique_loop.simps) simp
next
  case (Suc d)
  show ?case
  proof (cases "ex (candidate_path pd st sf c)")
    case False
    then show ?thesis by (subst unique_loop.simps) simp
  next
    case True
    from Suc.hyps(2) have d: "d = k - (c + 1)" and le: "c + 1 \<le> k" by simp_all
    from Suc.hyps(1) [of "c + 1", OF d Suc.prems(1) le]
    obtain q where "unique_loop ex pd st sf (c + 1) = Some q" ..
    with True have "unique_loop ex pd st sf c = Some q" by (subst unique_loop.simps) simp
    then show ?thesis ..
  qed
qed

text \<open>
  Claim C5 says the resolver gives up after a bounded number of attempts when every
  candidate is reported as existing. The loop of \<^verbatim>\<open>generate_unique_destination_path\<close>
  has no bound and raises nothing: with every path reported as existing it never
  returns.
\<close>

theorem resolver_never_returns_counterexample:
  "generate_unique_destination_path always_exists [''dl'', ''Documentos'', ''report.pdf'']
   = None"
  by (simp add: generate_unique_destination_path_def always_exists_def unique_loop_diverges)

text \<open>
  Claim C5, amended. The resolver returns exactly when the proposed path or one of its
  candidates is reported as not existing, which is always so on a filesystem, whose
  entries are finitely many; there is no bound on the attempts and no defensive error.
\<close>

theorem resolver_returns_iff:
  "(generate_unique_destination_path ex dest \<noteq> None)
     = (\<not> ex dest \<or> (\<exists>k\<ge>1. \<not> ex (candidate_path (parent dest) (stem dest) (suffix dest) k)))
   \<and> generate_unique_destination_path (exists_path fs) dest \<noteq> None"
proof (rule conjI)
  let ?c = "candidate_path (parent dest) (stem dest) (suffix dest)"
  show "(generate_unique_destination_path ex dest \<noteq> None)
     = (\<not> ex dest \<or> (\<exists>k\<ge>1. \<not> ex (?c k)))"
  proof (cases "ex dest")
    case False
    then show ?thesis by (simp add: generate_unique_destination_path_def)
  next
    case True
    have "(unique_loop ex (parent dest) (stem dest) (suffix dest) 1 \<noteq> None)
          = (\<exists>k\<ge>1. \<not> ex (?c k))"
    proof
      assume "unique_loop ex (parent dest) (stem dest) (suffix dest) 1 \<noteq> None"
      then obtain q where "unique_loop ex (parent dest) (stem dest) (suffix dest) 1 = Some q"
        by (cases "unique_loop ex (parent dest) (stem dest) (suffix dest) 1") simp_all
      from unique_loop_Some [OF this] obtain k where "1 \<le> k" "q = ?c k" "\<not> ex q"
        by (elim exE conjE)
      then have "1 \<le> k \<and> \<not> ex (?c k)" by simp
      then show "\<exists>k\<ge>1. \<not> ex (?c k)" by (rule exI [where x = k])
    next
      assume "\<exists>k\<ge>1. \<not> ex (?c k)"
      then obtain k where k: "1 \<le> k" "\<not> ex (?c k)" by (elim exE conjE)
      from unique_loop_returns [of ex "parent dest" "stem dest" "suffix dest" k 1, OF k(2) k(1)]
      obtain q where "unique_loop ex (parent dest) (stem dest) (suffix dest) 1 = Some q" ..
      then show "unique_loop ex (parent dest) (stem dest) (suffix dest) 1 \<noteq> None" by simp
    qed
    with True show ?thesis by (simp add: generate_unique_destination_path_def)
  qed
next
  obtain q where "unique_loop (exists_path fs) (parent dest) (stem dest) (suffix dest) 1 = Some q"
    using unique_loop_total by blast
  then show "generate_unique_destination_path (exists_path fs) dest \<noteq> None"
    by (simp add: generate_unique_destination_path_def)
qed

theorem resolver_returns_iff_witness:
  "generate_unique_destination_path
     (exists_path [([''dl''], Dir), ([''dl'', ''report.pdf''], File)]) [''dl'', ''report.pdf'']
     \<noteq> None
   \<and> exists_path [([''dl''], Dir), ([''dl'', ''report.pdf''], File)] [''dl'', ''report.pdf'']
   \<and> \<not> exists_path [([''dl''], Dir), ([''dl'', ''report.pdf''], File)]
         (candidate_path (parent [''dl'', ''report.pdf'']) (stem [''dl'', ''report.pdf''])
            (suffix [''dl'', ''report.pdf'']) 1)"
proof -
  let ?fs = "[([''dl''], Dir), ([''dl'', ''report.pdf''], File)]"
  let ?d = "[''dl'', ''report.pdf'']"
  let ?c = "candidate_path (parent ?d) (stem ?d) (suffix ?d)"
  have a: "exists_path ?fs ?d" by code_simp
  have b: "\<not> exists_path ?fs (?c 1)" by code_simp
  then have "(1::nat) \<le> 1 \<and> \<not> exists_path ?fs (?c 1)" by simp
  then have c: "\<exists>k\<ge>1. \<not> exists_path ?fs (?c k)" by (rule exI [where x = 1])
  have "(generate_unique_destination_path (exists_path ?fs) ?d \<noteq> None)
        = (\<not> exists_path ?fs ?d \<or> (\<exists>k\<ge>1. \<not> exists_path ?fs (?c k)))"
    using resolver_returns_iff [of "exists_path ?fs" ?d ?fs] by (elim conjE)
  with c have "generate_unique_destination_path (exists_path ?fs) ?d \<noteq> None" by simp
  with a b show ?thesis by (intro conjI)
qed

subsection \<open>The plan builder\<close>

lemma plan_loop_mem:
  "child \<in> set children \<Longrightarrow> \<not> is_dir fs child
   \<Longrightarrow> include_hidden \<or> \<not> is_hidden_file child
   \<Longrightarrow> plan_item directory child \<in> set (plan_loop fs directory include_hidden children)"
  by (induction children) auto

lemma name_joinpath [simp]: "name (joinpath d s) = s"
  by (simp add: name_def joinpath_def)

lemma suffix_after_last_dot:
  assumes "tail \<noteq> []" and "CHR ''.'' \<notin> set tail" and "name p = front @ CHR ''.'' # tail"
    and "front \<noteq> []"
  shows "suffix p = CHR ''.'' # tail"
proof -
  have r: "rfind (CHR ''.'') (name p) = int (length front)"
    using assms(2,3) by (simp add: rfind_append)
  from assms(1) have "0 < length tail" by simp
  with assms(3,4) r show ?thesis by (simp add: suffix_def Let_def)
qed

text \<open>
  What the builder does with a name that ends in \<^verbatim>\<open>.tar.gz\<close>, \<^verbatim>\<open>.tar.bz2\<close> or
  \<^verbatim>\<open>.tar.xz\<close>: the extension it hands to the classifier is the last suffix alone, and
  a listed file that is kept gets the plan item into \<^verbatim>\<open>Comprimidos\<close>.
\<close>

lemma last_suffix_plan:
  assumes "tail \<in> {''gz'', ''bz2'', ''xz''}"
    and "child = joinpath directory (base @ ''.tar.'' @ tail)"
    and "exists_path fs directory" and "is_dir fs directory"
    and "child \<in> set (iterdir fs directory)" and "\<not> is_dir fs child"
    and "include_hidden \<or> \<not> is_hidden_file child"
  shows "file_extension child = ''.'' @ tail
     \<and> (\<exists>plans. build_move_plan_for_directory fs directory include_hidden = Inr plans
          \<and> \<lparr>source = child,
              destination = joinpath (joinpath directory ''Comprimidos'') (base @ ''.tar.'' @ tail),
              category = ''Comprimidos''\<rparr> \<in> set plans)"
proof -
  have t: "tail \<noteq> []" "CHR ''.'' \<notin> set tail" using assms(1) by auto
  have n: "name child = (base @ ''.tar'') @ CHR ''.'' # tail"
    using assms(2) by simp
  have s: "suffix child = CHR ''.'' # tail"
    by (rule suffix_after_last_dot [OF t n]) simp
  have l: "lower (CHR ''.'' # tail) = CHR ''.'' # tail"
    using assms(1) by (elim insertE emptyE; hypsubst; code_simp)
  have c: "infer_category_from_extension (CHR ''.'' # tail) = ''Comprimidos''"
    using assms(1) by (elim insertE emptyE; hypsubst; code_simp)
  from s l have e: "file_extension child = ''.'' @ tail"
    by (simp add: file_extension_def)
  with c assms(2) have "plan_item directory child =
      \<lparr>source = child,
       destination = joinpath (joinpath directory ''Comprimidos'') (base @ ''.tar.'' @ tail),
       category = ''Comprimidos''\<rparr>"
    by (simp add: plan_item_def Let_def)
  with plan_loop_mem [OF assms(5,6,7), of directory]
  have "\<lparr>source = child,
       destination = joinpath (joinpath directory ''Comprimidos'') (base @ ''.tar.'' @ tail),
       category = ''Comprimidos''\<rparr>
       \<in> set (plan_loop fs directory include_hidden (iterdir fs directory))"
    by simp
  with assms(3,4) e show ?thesis
    by (simp add: build_move_plan_for_directory_def)
qed

text \<open>
  The extension handed to the classifier has no dot after its first character, so it
  is never one of the table's entries \<^verbatim>\<open>.tar.gz\<close>, \<^verbatim>\<open>.tar.bz2\<close> and \<^verbatim>\<open>.tar.xz\<close>.
\<close>

lemma rfind_neg: "rfind c s < 0 \<Longrightarrow> c \<notin> set s"
  by (induction s) (auto simp: Let_def split: if_splits)

lemma rfind_last:
  "0 \<le> rfind c s \<Longrightarrow>
     nat (rfind c s) < length s \<and> s ! nat (rfind c s) = c
     \<and> c \<notin> set (drop (Suc (nat (rfind c s))) s)"
proof (induction s)
  case Nil
  then show ?case by simp
next
  case (Cons x xs)
  show ?case
  proof (cases "0 \<le> rfind c xs")
    case True
    with Cons.IH have ih: "nat (rfind c xs) < length xs" "xs ! nat (rfind c xs) = c"
      "c \<notin> set (drop (Suc (nat (rfind c xs))) xs)" by simp_all
    from True have r: "nat (rfind c (x # xs)) = Suc (nat (rfind c xs))"
      by (simp add: Let_def nat_add_distrib)
    show ?thesis unfolding r using ih by simp
  next
    case False
    then have neg: "rfind c xs < 0" by simp
    with Cons.prems have xc: "x = c" and r: "nat (rfind c (x # xs)) = 0"
      by (auto simp: Let_def split: if_splits)
    show ?thesis unfolding r using xc rfind_neg [OF neg] by simp
  qed
qed

lemma suffix_one_dot:
  "suffix p = [] \<or> (\<exists>t. suffix p = CHR ''.'' # t \<and> CHR ''.'' \<notin> set t)"
proof -
  define i where "i = rfind (CHR ''.'') (name p)"
  show ?thesis
  proof (cases "0 < i \<and> i < int (length (name p)) - 1")
    case False
    then have "suffix p = []" unfolding suffix_def Let_def i_def by (rule if_not_P)
    then show ?thesis by simp
  next
    case True
    then have s: "suffix p = drop (nat i) (name p)"
      unfolding suffix_def Let_def i_def by (rule if_P)
    from True have "0 \<le> rfind (CHR ''.'') (name p)" by (simp add: i_def)
    from rfind_last [OF this] have l: "nat i < length (name p)" "name p ! nat i = CHR ''.''"
      "CHR ''.'' \<notin> set (drop (Suc (nat i)) (name p))" by (simp_all add: i_def)
    from l(1,2) have "drop (nat i) (name p) = CHR ''.'' # drop (Suc (nat i)) (name p)"
      by (metis Cons_nth_drop_Suc)
    with s l(3) show ?thesis by simp
  qed
qed

lemma char_lower_dot: "(char_lower c = CHR ''.'') = (c = CHR ''.'')"
proof
  assume c: "c = CHR ''.''"
  have "char_lower (CHR ''.'') = CHR ''.''" by code_simp
  with c show "char_lower c = CHR ''.''" by simp
next
  assume a: "char_lower c = CHR ''.''"
  define n where "n = (of_char c :: nat)"
  show "c = CHR ''.''"
  proof (cases "(65 \<le> n \<and> n \<le> 90) \<or> (192 \<le> n \<and> n \<le> 222 \<and> n \<noteq> 215)")
    case False
    then have "char_lower c = c" unfolding char_lower_def Let_def n_def by (rule if_not_P)
    with a show ?thesis by simp
  next
    case True
    then have "char_lower c = char_of (n + 32)"
      unfolding char_lower_def Let_def n_def by (rule if_P)
    with a have "of_char (char_of (n + 32) :: char) = (of_char (CHR ''.'') :: nat)"
      by simp
    then have m: "(n + 32) mod 256 = 46" by (simp add: of_char_of)
    from True have "n + 32 < 256" by linarith
    then have "(n + 32) mod 256 = n + 32" by (rule mod_less)
    with m have "n + 32 = 46" by simp
    then have "n = 14" by linarith
    with True have False by linarith
    then show ?thesis ..
  qed
qed

lemma file_extension_one_dot:
  "file_extension p = [] \<or> (\<exists>t. file_extension p = CHR ''.'' # t \<and> CHR ''.'' \<notin> set t)"
proof -
  from suffix_one_dot [of p] show ?thesis
  proof
    assume "suffix p = []"
    then show ?thesis by (simp add: file_extension_def lower_def)
  next
    assume "\<exists>t. suffix p = CHR ''.'' # t \<and> CHR ''.'' \<notin> set t"
    then obtain t where t: "suffix p = CHR ''.'' # t" "CHR ''.'' \<notin> set t" by blast
    have "CHR ''.'' \<notin> set (map char_lower t)"
    proof
      assume "CHR ''.'' \<in> set (map char_lower t)"
      then obtain x where "x \<in> set t" "char_lower x = CHR ''.''" by auto
      with t(2) show False by (simp add: char_lower_dot)
    qed
    moreover have "char_lower (CHR ''.'') = CHR ''.''" by (simp add: char_lower_dot)
    ultimately show ?thesis using t(1) by (simp add: file_extension_def lower_def)
  qed
qed

lemma multi_segment_entries_unreachable:
  "file_extension p \<notin> {''.tar.gz'', ''.tar.bz2'', ''.tar.xz''}"
  using file_extension_one_dot [of p] by auto

text \<open>
  Claim C2 says that \<^verbatim>\<open>archive.tar.gz\<close> is classified by the full trailing token
  \<^verbatim>\<open>.tar.gz\<close>, not merely \<^verbatim>\<open>.gz\<close>, and planned as \<^verbatim>\<open>Comprimidos/archive.tar.gz\<close>. The
  plan builder hands \<^verbatim>\<open>child.suffix.lower()\<close> to the classifier, and \<^verbatim>\<open>Path.suffix\<close> is
  the part of the name from its last dot: for \<^verbatim>\<open>archive.tar.gz\<close> the classifier is
  given \<^verbatim>\<open>.gz\<close>, not \<^verbatim>\<open>.tar.gz\<close>, although the table lists \<^verbatim>\<open>.tar.gz\<close> under
  \<^verbatim>\<open>Comprimidos\<close>. The plan item is the one the claim names, because \<^verbatim>\<open>.gz\<close> is listed
  under \<^verbatim>\<open>Comprimidos\<close> as well.
\<close>

theorem tar_gz_classified_by_last_suffix:
  "file_extension [''dl'', ''archive.tar.gz''] = ''.gz''
   \<and> file_extension [''dl'', ''archive.tar.gz''] \<noteq> ''.tar.gz''
   \<and> ''.tar.gz'' \<in> set (the (map_of CATEGORIES ''Comprimidos''))
   \<and> plan_loop [([''dl''], Dir), ([''dl'', ''archive.tar.gz''], File)] [''dl''] False
        (iterdir [([''dl''], Dir), ([''dl'', ''archive.tar.gz''], File)] [''dl''])
      = [\<lparr>source = [''dl'', ''archive.tar.gz''],
           destination = [''dl'', ''Comprimidos'', ''archive.tar.gz''],
           category = ''Comprimidos''\<rparr>]"
  by code_simp

text \<open>
  Claim C4. When the target path does not exist or is not a directory,
  \<^verbatim>\<open>build_move_plan_for_directory\<close> raises its \<^verbatim>\<open>ValueError\<close> and yields no plan, and the
  run ends there: nothing is printed and the filesystem is as it was.
\<close>

theorem invalid_target_rejected:
  assumes "\<not> exists_path fs directory \<or> \<not> is_dir fs directory"
  shows "build_move_plan_for_directory fs directory include_hidden = Inl ValueError
         \<and> main fs directory dry_run include_hidden = Some (fs, [], Inl ValueError)"
  using assms by (auto simp: build_move_plan_for_directory_def main_def)

theorem invalid_target_rejected_witness:
  "build_move_plan_for_directory [([''dl''], Dir), ([''dl'', ''a.txt''], File)] [''nope''] False
     = Inl ValueError
   \<and> main [([''dl''], Dir), ([''dl'', ''a.txt''], File)] [''nope''] False False
     = Some ([([''dl''], Dir), ([''dl'', ''a.txt''], File)], [], Inl ValueError)
   \<and> build_move_plan_for_directory [([''dl''], Dir), ([''dl'', ''a.txt''], File)]
       [''dl'', ''a.txt''] False = Inl ValueError
   \<and> main [([''dl''], Dir), ([''dl'', ''a.txt''], File)] [''dl'', ''a.txt''] False False
     = Some ([([''dl''], Dir), ([''dl'', ''a.txt''], File)], [], Inl ValueError)"
proof -
  let ?fs = "[([''dl''], Dir), ([''dl'', ''a.txt''], File)]"
  have h1: "\<not> exists_path ?fs [''nope''] \<or> \<not> is_dir ?fs [''nope'']" by code_simp
  have h2: "\<not> exists_path ?fs [''dl'', ''a.txt''] \<or> \<not> is_dir ?fs [''dl'', ''a.txt'']"
    by code_simp
  show ?thesis
    using invalid_target_rejected [OF h1, of False False]
      invalid_target_rejected [OF h2, of False False]
    by (intro conjI) (elim conjE, assumption)+
qed

subsection \<open>The executor\<close>

lemma generate_unique_total:
  "\<exists>q. generate_unique_destination_path (exists_path fs) dest = Some q"
proof -
  obtain q where "unique_loop (exists_path fs) (parent dest) (stem dest) (suffix dest) 1 = Some q"
    using unique_loop_total by blast
  then show ?thesis by (simp add: generate_unique_destination_path_def)
qed





text \<open>The live run: the counters.\<close>

lemma dict_set_sum:
  "sum_list (map snd (dict_set pc k (dict_get pc k 0 + 1))) = sum_list (map snd pc) + 1"
proof (induction pc)
  case Nil
  show ?case by (simp add: dict_get_def)
next
  case (Cons kv pc)
  obtain k' w where kv: "kv = (k', w)" by (cases kv)
  show ?case
  proof (cases "k' = k")
    case True
    with kv show ?thesis by (simp add: dict_get_def)
  next
    case False
    with kv have "dict_get (kv # pc) k 0 = dict_get pc k 0" by (simp add: dict_get_def)
    with False kv Cons.IH show ?thesis by simp
  qed
qed

lemma apply_loop_live_counts:
  "apply_loop False plans fs out mc pc = Some (fs', out', Inr (n, pc'))
   \<Longrightarrow> n = mc + length plans
       \<and> sum_list (map snd pc') = sum_list (map snd pc) + length plans"
proof (induction plans arbitrary: fs out mc pc)
  case Nil
  then show ?case by simp
next
  case (Cons plan plans)
  obtain fs1 eo where e: "ensure_directory fs (parent (destination plan)) = (fs1, eo)"
    by (cases "ensure_directory fs (parent (destination plan))")
  with Cons.prems have eo: "eo = None" by (cases eo) simp_all
  obtain q where q: "generate_unique_destination_path (exists_path fs1) (destination plan) = Some q"
    using generate_unique_total by blast
  from Cons.prems e eo q obtain fs2 where m: "shutil_move fs1 (source plan) q = Inr fs2"
    by (cases "shutil_move fs1 (source plan) q") simp_all
  let ?pc1 = "dict_set pc (category plan) (dict_get pc (category plan) 0 + 1)"
  from Cons.prems e eo q m
  have "apply_loop False plans fs2 out (mc + 1) ?pc1 = Some (fs', out', Inr (n, pc'))"
    by simp
  from Cons.IH [OF this] dict_set_sum [of pc "category plan"] show ?case by simp
qed

lemma apply_loop_live_append:
  "apply_loop False (xs @ ys) fs out mc pc = Some (fs', out', Inr res)
   \<Longrightarrow> \<exists>fs1 out1 n1 pc1. apply_loop False xs fs out mc pc = Some (fs1, out1, Inr (n1, pc1))
         \<and> apply_loop False ys fs1 out1 n1 pc1 = Some (fs', out', Inr res)"
proof (induction xs arbitrary: fs out mc pc)
  case Nil
  then show ?case by simp
next
  case (Cons plan xs)
  obtain fs1 eo where e: "ensure_directory fs (parent (destination plan)) = (fs1, eo)"
    by (cases "ensure_directory fs (parent (destination plan))")
  with Cons.prems have eo: "eo = None" by (cases eo) simp_all
  obtain q where q: "generate_unique_destination_path (exists_path fs1) (destination plan) = Some q"
    using generate_unique_total by blast
  from Cons.prems e eo q obtain fs2 where m: "shutil_move fs1 (source plan) q = Inr fs2"
    by (cases "shutil_move fs1 (source plan) q") simp_all
  let ?pc1 = "dict_set pc (category plan) (dict_get pc (category plan) 0 + 1)"
  from Cons.prems e eo q m
  have "apply_loop False (xs @ ys) fs2 out (mc + 1) ?pc1 = Some (fs', out', Inr res)"
    by simp
  from Cons.IH [OF this] e eo q m show ?case by simp
qed

text \<open>
  Claim C10. When \<^verbatim>\<open>apply_move_plan\<close> without \<^verbatim>\<open>dry_run\<close> returns, the count it returns
  is the number of plan items and the sum of the per-category counts; the same holds
  after each item, that is for the run on every prefix of the plan.
\<close>

theorem live_run_counts:
  assumes "apply_move_plan fs plans False = Some (fs', out, Inr (moved_count, per_category))"
  shows "moved_count = length plans
     \<and> sum_list (map snd per_category) = moved_count
     \<and> (\<forall>k \<le> length plans. \<exists>fs_k out_k pc_k.
           apply_move_plan fs (take k plans) False = Some (fs_k, out_k, Inr (k, pc_k))
           \<and> sum_list (map snd pc_k) = k)"
proof -
  from assms have a: "apply_loop False plans fs [] 0 [] = Some (fs', out, Inr (moved_count, per_category))"
    by (simp add: apply_move_plan_def)
  from apply_loop_live_counts [OF a]
  have t: "moved_count = length plans" "sum_list (map snd per_category) = moved_count"
    by simp_all
  have "\<exists>fs_k out_k pc_k.
           apply_move_plan fs (take k plans) False = Some (fs_k, out_k, Inr (k, pc_k))
           \<and> sum_list (map snd pc_k) = k" if k: "k \<le> length plans" for k
  proof -
    from a have "apply_loop False (take k plans @ drop k plans) fs [] 0 []
        = Some (fs', out, Inr (moved_count, per_category))" by simp
    from apply_loop_live_append [OF this] obtain fs1 out1 n1 pc1 where
      p: "apply_loop False (take k plans) fs [] 0 [] = Some (fs1, out1, Inr (n1, pc1))"
      by (elim exE conjE)
    from apply_loop_live_counts [OF p] k have "n1 = k" "sum_list (map snd pc1) = k"
      by simp_all
    with p show ?thesis by (auto simp: apply_move_plan_def)
  qed
  with t show ?thesis by blast
qed

theorem live_run_counts_witness:
  "apply_move_plan [([''dl''], Dir), ([''dl'', ''a.png''], File), ([''dl'', ''b.txt''], File)]
     [\<lparr>source = [''dl'', ''a.png''], destination = [''dl'', ''Imagenes'', ''a.png''],
       category = ''Imagenes''\<rparr>,
      \<lparr>source = [''dl'', ''b.txt''], destination = [''dl'', ''Documentos'', ''b.txt''],
       category = ''Documentos''\<rparr>] False
     = Some ([([''dl''], Dir), ([''dl'', ''Imagenes''], Dir), ([''dl'', ''Imagenes'', ''a.png''], File),
              ([''dl'', ''Documentos''], Dir), ([''dl'', ''Documentos'', ''b.txt''], File)],
             [], Inr (2, [(''Imagenes'', 1), (''Documentos'', 1)]))
   \<and> (2::nat) = length
       [\<lparr>source = [''dl'', ''a.png''], destination = [''dl'', ''Imagenes'', ''a.png''],
         category = ''Imagenes''\<rparr>,
        \<lparr>source = [''dl'', ''b.txt''], destination = [''dl'', ''Documentos'', ''b.txt''],
         category = ''Documentos''\<rparr>]
   \<and> sum_list (map snd [(''Imagenes'', 1::nat), (''Documentos'', 1)]) = 2"
proof -
  let ?fs = "[([''dl''], Dir), ([''dl'', ''a.png''], File), ([''dl'', ''b.txt''], File)]"
  let ?fs1 = "[([''dl''], Dir), ([''dl'', ''a.png''], File), ([''dl'', ''b.txt''], File),
               ([''dl'', ''Imagenes''], Dir)]"
  let ?fs2 = "[([''dl''], Dir), ([''dl'', ''b.txt''], File), ([''dl'', ''Imagenes''], Dir),
               ([''dl'', ''Imagenes'', ''a.png''], File)]"
  let ?fs3 = "[([''dl''], Dir), ([''dl'', ''b.txt''], File), ([''dl'', ''Imagenes''], Dir),
               ([''dl'', ''Imagenes'', ''a.png''], File), ([''dl'', ''Documentos''], Dir)]"
  let ?fs4 = "[([''dl''], Dir), ([''dl'', ''Imagenes''], Dir), ([''dl'', ''Imagenes'', ''a.png''], File),
               ([''dl'', ''Documentos''], Dir), ([''dl'', ''Documentos'', ''b.txt''], File)]"
  let ?p1 = "\<lparr>source = [''dl'', ''a.png''], destination = [''dl'', ''Imagenes'', ''a.png''],
              category = ''Imagenes''\<rparr>"
  let ?p2 = "\<lparr>source = [''dl'', ''b.txt''], destination = [''dl'', ''Documentos'', ''b.txt''],
              category = ''Documentos''\<rparr>"
  have e1: "ensure_directory ?fs (parent [''dl'', ''Imagenes'', ''a.png'']) = (?fs1, None)"
    by code_simp
  have g1: "generate_unique_destination_path (exists_path ?fs1) [''dl'', ''Imagenes'', ''a.png'']
            = Some [''dl'', ''Imagenes'', ''a.png'']"
    by (rule generate_unique_free) code_simp
  have m1: "shutil_move ?fs1 [''dl'', ''a.png''] [''dl'', ''Imagenes'', ''a.png''] = Inr ?fs2"
    by code_simp
  have e2: "ensure_directory ?fs2 (parent [''dl'', ''Documentos'', ''b.txt'']) = (?fs3, None)"
    by code_simp
  have g2: "generate_unique_destination_path (exists_path ?fs3) [''dl'', ''Documentos'', ''b.txt'']
            = Some [''dl'', ''Documentos'', ''b.txt'']"
    by (rule generate_unique_free) code_simp
  have m2: "shutil_move ?fs3 [''dl'', ''b.txt''] [''dl'', ''Documentos'', ''b.txt''] = Inr ?fs4"
    by code_simp
  have ev: "apply_move_plan ?fs [?p1, ?p2] False
            = Some (?fs4, [], Inr (2, [(''Imagenes'', 1), (''Documentos'', 1)]))"
    by (simp add: apply_move_plan_def e1 g1 m1 e2 g2 m2 dict_get_def)
  from live_run_counts [OF ev] ev show ?thesis by simp
qed

text \<open>
  Claim C1 says that a dry run leaves the filesystem unchanged. In \<^verbatim>\<open>apply_move_plan\<close>
  the call \<^verbatim>\<open>ensure_directory(plan.destination.parent)\<close> comes before the test of
  \<^verbatim>\<open>dry_run\<close>, so a dry run creates the category directories: on a directory \<^verbatim>\<open>dl\<close>
  holding the one file \<^verbatim>\<open>a.png\<close> it creates \<^verbatim>\<open>dl/Imagenes\<close>. No file is moved, the one
  line is printed, and the counters stay at zero.
\<close>

theorem dry_run_creates_directory:
  "main [([''dl''], Dir), ([''dl'', ''a.png''], File)] [''dl''] True False
     = Some ([([''dl''], Dir), ([''dl'', ''a.png''], File), ([''dl'', ''Imagenes''], Dir)],
             [(''a.png'', ''Imagenes'', ''a.png'')], Inr (0, []))
   \<and> \<not> exists_path [([''dl''], Dir), ([''dl'', ''a.png''], File)] [''dl'', ''Imagenes'']"
proof -
  let ?fs = "[([''dl''], Dir), ([''dl'', ''a.png''], File)]"
  let ?fs1 = "[([''dl''], Dir), ([''dl'', ''a.png''], File), ([''dl'', ''Imagenes''], Dir)]"
  let ?plan = "\<lparr>source = [''dl'', ''a.png''], destination = [''dl'', ''Imagenes'', ''a.png''],
                category = ''Imagenes''\<rparr>"
  have b: "build_move_plan_for_directory ?fs [''dl''] False = Inr [?plan]" by code_simp
  have e: "ensure_directory ?fs (parent [''dl'', ''Imagenes'', ''a.png'']) = (?fs1, None)"
    by code_simp
  have g: "generate_unique_destination_path (exists_path ?fs1) [''dl'', ''Imagenes'', ''a.png'']
           = Some [''dl'', ''Imagenes'', ''a.png'']"
    by (rule generate_unique_free) code_simp
  have n: "name [''dl'', ''a.png''] = ''a.png''"
    "name (parent [''dl'', ''Imagenes'', ''a.png'']) = ''Imagenes''"
    "name [''dl'', ''Imagenes'', ''a.png''] = ''a.png''"
    by code_simp+
  have x: "\<not> exists_path ?fs [''dl'', ''Imagenes'']" by code_simp
  have "main ?fs [''dl''] True False
        = Some (?fs1, [(''a.png'', ''Imagenes'', ''a.png'')], Inr (0, []))"
    by (simp add: main_def b apply_move_plan_def e g n)
  with x show ?thesis by (intro conjI)
qed

text \<open>
  Claim C8 says that two dry runs in a row on the same directory build identical plans.
  The second plan is built on the filesystem the first dry run leaves, which holds the
  category directories created above. An entry whose kind depends on one of them is
  then read differently: a symbolic link \<^verbatim>\<open>dl/link\<close> to \<^verbatim>\<open>dl/Imagenes\<close>, dangling before
  the first run, is not a directory for the first build, which plans its move to
  \<^verbatim>\<open>dl/Otros/link\<close>, and is a directory for the second build, which skips it. Symbolic
  links are outside this filesystem model, so no theorem is stated for this claim.
\<close>

end
